theory Spec2Isabelle
  imports Main "HOL-Library.Stream"
begin

section \<open>The expression generator and printer of \<^verbatim>\<open>samples/gen_expr.py\<close>\<close>

text \<open>
  The script builds a random arithmetic expression as nested Python lists and prints it
  as indented text. Everything the script does beyond computing a value is explicit here:
  \<^item> the process-wide random source is a stream of raw draws, threaded through every
    call; each call of \<^verbatim>\<open>random.randint\<close>, \<^verbatim>\<open>random.choice\<close> or \<^verbatim>\<open>random.random\<close>
    consumes one draw;
  \<^item> an exception is a value of type \<open>error\<close>;
  \<^item> the interpreter's recursion limit is a bound on the nested calls of \<^verbatim>\<open>rand_expr\<close>,
    past which the call raises \<^verbatim>\<open>RecursionError\<close>;
  \<^item> the \<^verbatim>\<open>while True\<close> loop of \<^verbatim>\<open>rand_no_exp\<close> may run forever, so the functions
    that reach it return an \<open>option\<close>: \<open>None\<close> is "does not return";
  \<^item> what \<^verbatim>\<open>print\<close> writes is returned as a string.
\<close>

subsection \<open>Values\<close>

text \<open>
  A number is a Python \<^verbatim>\<open>int\<close> or a \<^verbatim>\<open>float\<close>. The only floats of the script come
  from \<^verbatim>\<open>random.random()\<close>, which returns a multiple of \<open>2\<^sup>-\<^sup>5\<^sup>3\<close> in \<open>[0, 1)\<close>:
  \<open>PyFloat k\<close> is the float \<open>k / 2\<^sup>5\<^sup>3\<close>.
\<close>

datatype num = PyInt int | PyFloat nat

text \<open>
  An expression is a number or a list \<^verbatim>\<open>[tag, child, ...]\<close> whose first element is the
  operator's name: \<open>Lst tag cs\<close> is the list of length \<open>1 + length cs\<close>.
\<close>

datatype pyexpr = Num num | Lst string "pyexpr list"

datatype error = ValueError | IndexError | RecursionError

text \<open>
  The parts of the Python runtime the script calls and the repository does not hold:
  \<^verbatim>\<open>str\<close> of a float (given the numerator \<open>k\<close> of \<open>k / 2\<^sup>5\<^sup>3\<close>), \<^verbatim>\<open>int\<close> of a string
  (\<open>None\<close> when it raises \<^verbatim>\<open>ValueError\<close>), and the recursion limit. The script recurses
  through \<^verbatim>\<open>rand_expr\<close> only, one frame for each nested call, and every call of
  \<^verbatim>\<open>rand_expr\<close> needs a few frames more for what it calls (\<^verbatim>\<open>rand_val\<close> and the functions of
  the \<^verbatim>\<open>random\<close> module), so the limit is given as \<open>call_limit\<close>: how many calls of
  \<^verbatim>\<open>rand_expr\<close> may be nested. CPython's default limit of 1000 frames leaves the script
  about 995.
\<close>

record runtime =
  str_float :: "nat \<Rightarrow> string"
  int_of_str :: "string \<Rightarrow> int option"
  call_limit :: nat

subsection \<open>The random source\<close>

type_synonym rng = "nat stream"

text \<open>\<^verbatim>\<open>random.randint(a, b)\<close>: an integer of \<open>[a, b]\<close>; \<^verbatim>\<open>ValueError\<close> on an empty range.\<close>

definition py_randint :: "int \<Rightarrow> int \<Rightarrow> rng \<Rightarrow> error + int \<times> rng" where
  "py_randint a b g =
     (if b < a then Inl ValueError
      else Inr (a + int (shd g mod nat (b - a + 1)), stl g))"

text \<open>\<^verbatim>\<open>random.choice(seq)\<close>: an element of the sequence; \<^verbatim>\<open>IndexError\<close> when it is empty.\<close>

definition py_choice :: "'a list \<Rightarrow> rng \<Rightarrow> error + 'a \<times> rng" where
  "py_choice xs g =
     (if xs = [] then Inl IndexError
      else Inr (xs ! (shd g mod length xs), stl g))"

text \<open>\<^verbatim>\<open>random.random()\<close>: the numerator of a float \<open>k / 2\<^sup>5\<^sup>3\<close> of \<open>[0, 1)\<close>.\<close>

definition py_random :: "rng \<Rightarrow> nat \<times> rng" where
  "py_random g = (shd g mod 2 ^ 53, stl g)"

subsection \<open>The generator\<close>

definition rand_instr2 :: "pyexpr \<Rightarrow> pyexpr \<Rightarrow> rng \<Rightarrow> error + pyexpr \<times> rng" where
  "rand_instr2 a b g =
     (case py_choice [''add'', ''sub'', ''mult''] g of
        Inl e \<Rightarrow> Inl e
      | Inr (tag, g') \<Rightarrow> Inr (Lst tag [a, b], g'))"

definition rand_instr1 :: "pyexpr \<Rightarrow> rng \<Rightarrow> error + pyexpr \<times> rng" where
  "rand_instr1 a g =
     (case py_choice [''neg''] g of
        Inl e \<Rightarrow> Inl e
      | Inr (tag, g') \<Rightarrow> Inr (Lst tag [a], g'))"

text \<open>\<open>has_e s\<close> is the test \<^verbatim>\<open>"e" in s\<close>.\<close>

definition has_e :: "string \<Rightarrow> bool" where
  "has_e s = (CHR ''e'' \<in> set s)"

partial_function (option) rand_no_exp :: "runtime \<Rightarrow> rng \<Rightarrow> (nat \<times> rng) option" where
  "rand_no_exp rt g =
     (case py_random g of
        (r, g') \<Rightarrow> if \<not> has_e (str_float rt r) then Some (r, g') else rand_no_exp rt g')"

definition rand_val :: "runtime \<Rightarrow> rng \<Rightarrow> (error + num \<times> rng) option" where
  "rand_val rt g =
     (case py_randint 0 1 g of
        Inl e \<Rightarrow> Some (Inl e)
      | Inr (b, g1) \<Rightarrow>
          if b \<noteq> 0 then
            (case py_randint (- 1000) 1000 g1 of
               Inl e \<Rightarrow> Some (Inl e)
             | Inr (v, g2) \<Rightarrow> Some (Inr (PyInt v, g2)))
          else
            (case rand_no_exp rt g1 of
               None \<Rightarrow> None
             | Some (r, g2) \<Rightarrow> Some (Inr (PyFloat r, g2))))"

text \<open>
  \<open>calls\<close> is the number of nested calls of \<^verbatim>\<open>rand_expr\<close> the interpreter still allows:
  with none left the call raises \<^verbatim>\<open>RecursionError\<close>, and each recursive call is left with
  one fewer.
\<close>

function rand_expr ::
  "runtime \<Rightarrow> nat \<Rightarrow> int \<Rightarrow> rng \<Rightarrow> (error + pyexpr \<times> rng) option" where
  "rand_expr rt calls max_rec g =
     (if calls = 0 then Some (Inl RecursionError)
      else
        (case py_randint 0 max_rec g of
           Inl e \<Rightarrow> Some (Inl e)
         | Inr (r, g1) \<Rightarrow>
             if r = 0 \<or> max_rec \<le> 0 then
               (case rand_val rt g1 of
                  None \<Rightarrow> None
                | Some (Inl e) \<Rightarrow> Some (Inl e)
                | Some (Inr (v, g2)) \<Rightarrow> Some (Inr (Num v, g2)))
             else if r \<le> 1 then
               (case rand_expr rt (calls - 1) (max_rec - 1) g1 of
                  None \<Rightarrow> None
                | Some (Inl e) \<Rightarrow> Some (Inl e)
                | Some (Inr (a, g2)) \<Rightarrow> Some (rand_instr1 a g2))
             else
               (case rand_expr rt (calls - 1) (max_rec - 1) g1 of
                  None \<Rightarrow> None
                | Some (Inl e) \<Rightarrow> Some (Inl e)
                | Some (Inr (a, g2)) \<Rightarrow>
                    (case rand_expr rt (calls - 1) (max_rec - 1) g2 of
                       None \<Rightarrow> None
                     | Some (Inl e) \<Rightarrow> Some (Inl e)
                     | Some (Inr (b, g3)) \<Rightarrow> Some (rand_instr2 a b g3)))))"
  by pat_completeness auto
termination
  by (relation "measure (\<lambda>(rt, calls, max_rec, g). calls)") auto

declare rand_expr.simps [simp del]

subsection \<open>The printer\<close>

text \<open>\<^verbatim>\<open>str\<close> of an integer: its decimal digits, after a minus sign when negative.\<close>

fun str_nat :: "nat \<Rightarrow> string" where
  "str_nat n =
     (if n < 10 then [''0123456789'' ! n]
      else str_nat (n div 10) @ [''0123456789'' ! (n mod 10)])"

declare str_nat.simps [simp del]

definition str_int :: "int \<Rightarrow> string" where
  "str_int i = (if i < 0 then CHR ''-'' # str_nat (nat (- i)) else str_nat (nat i))"

fun str_num :: "runtime \<Rightarrow> num \<Rightarrow> string" where
  "str_num rt (PyInt i) = str_int i"
| "str_num rt (PyFloat k) = str_float rt k"

text \<open>The line end that \<^verbatim>\<open>print\<close> appends.\<close>

abbreviation eol :: string where
  "eol \<equiv> [CHR 0x0A]"

text \<open>\<^verbatim>\<open>" " * indent\<close> is empty for a negative \<open>indent\<close>.\<close>

definition spacing :: "int \<Rightarrow> bool \<Rightarrow> string" where
  "spacing indent newline = (if newline then replicate (nat indent) CHR '' '' else '' '')"

text \<open>
  The three branches of \<^verbatim>\<open>print_expr\<close>, in the order of the source: a number, a list of
  length 2, any other list (its tag, then a loop over the elements after the tag).
\<close>

fun print_expr :: "runtime \<Rightarrow> pyexpr \<Rightarrow> int \<Rightarrow> bool \<Rightarrow> string" where
  "print_expr rt (Num v) indent newline = spacing indent newline @ str_num rt v @ eol"
| "print_expr rt (Lst tag [c]) indent newline =
     spacing indent newline @ tag @ print_expr rt c (indent + 1) False"
| "print_expr rt (Lst tag cs) indent newline =
     spacing indent newline @ tag @ eol @
     concat (map (\<lambda>c. print_expr rt c (indent + 1) True) cs)"

subsection \<open>The script\<close>

text \<open>
  How a run ends, and what it has written by then. Line 56 reads the argument before
  anything is printed; line 58 prints before the expression is generated. Printing a
  generated tree nests \<^verbatim>\<open>print_expr\<close> no deeper than \<^verbatim>\<open>rand_expr\<close> was nested to build it, with
  fewer frames below each call, so the printer stays within the recursion limit.
\<close>

datatype ending = Finished | Raised error | Hangs

definition script :: "runtime \<Rightarrow> string list \<Rightarrow> rng \<Rightarrow> string \<times> ending" where
  "script rt argv g =
     (if length argv \<le> 1 then ([], Raised IndexError)
      else
        (case int_of_str rt (argv ! 1) of
           None \<Rightarrow> ([], Raised ValueError)
         | Some max_rec \<Rightarrow>
             (case rand_expr rt (call_limit rt) max_rec g of
                None \<Rightarrow> (''print'' @ eol, Hangs)
              | Some (Inl e) \<Rightarrow> (''print'' @ eol, Raised e)
              | Some (Inr (expr, g')) \<Rightarrow>
                  (''print'' @ eol @ print_expr rt expr 0 True, Finished))))"

subsection \<open>Measures and shapes of expressions\<close>

text \<open>A number has depth 0; a list is one deeper than its deepest element.\<close>

fun depth :: "pyexpr \<Rightarrow> nat" where
  "depth (Num v) = 0"
| "depth (Lst tag cs) = Suc (fold max (map depth cs) 0)"

fun leaves :: "pyexpr \<Rightarrow> num list" where
  "leaves (Num v) = [v]"
| "leaves (Lst tag cs) = concat (map leaves cs)"


text \<open>The three kinds of node of the specification, read off a Python value.\<close>

definition is_leaf :: "pyexpr \<Rightarrow> bool" where
  "is_leaf e = (case e of Num v \<Rightarrow> True | Lst tag cs \<Rightarrow> False)"

definition is_unary :: "pyexpr \<Rightarrow> bool" where
  "is_unary e = (case e of Num v \<Rightarrow> False | Lst tag cs \<Rightarrow> tag = ''neg'' \<and> length cs = 1)"

definition is_binary :: "pyexpr \<Rightarrow> bool" where
  "is_binary e =
     (case e of
        Num v \<Rightarrow> False
      | Lst tag cs \<Rightarrow> tag \<in> set [''add'', ''sub'', ''mult''] \<and> length cs = 2)"

text \<open>An expression all of whose nodes are of one of the three kinds.\<close>

fun gen_shape :: "pyexpr \<Rightarrow> bool" where
  "gen_shape (Num v) = True"
| "gen_shape (Lst tag cs) =
     ((is_unary (Lst tag cs) \<or> is_binary (Lst tag cs)) \<and> list_all gen_shape cs)"

text \<open>
  The test sequence of \<^verbatim>\<open>print_expr\<close> on its own: \<^verbatim>\<open>type(expr) == int or type(expr) == float\<close>,
  then \<^verbatim>\<open>len(expr) == 2\<close>, then the \<^verbatim>\<open>else\<close>.
\<close>

datatype branch = NumberBranch | PairBranch | ElseBranch

definition dispatch :: "pyexpr \<Rightarrow> branch" where
  "dispatch e =
     (case e of
        Num v \<Rightarrow> NumberBranch
      | Lst tag cs \<Rightarrow> if 1 + length cs = 2 then PairBranch else ElseBranch)"

text \<open>The leaf values of the value policy: integers of \<open>[-1000, 1000]\<close>, floats of \<open>[0, 1)\<close>
  whose rendering has no \<^verbatim>\<open>e\<close>.\<close>

fun leaf_ok :: "runtime \<Rightarrow> num \<Rightarrow> bool" where
  "leaf_ok rt (PyInt v) = (- 1000 \<le> v \<and> v \<le> 1000)"
| "leaf_ok rt (PyFloat k) = (k < 2 ^ 53 \<and> \<not> has_e (str_float rt k))"

text \<open>Counting nodes, and the lines of a text.\<close>

fun count_leaf :: "pyexpr \<Rightarrow> nat" where
  "count_leaf (Num v) = 1"
| "count_leaf (Lst tag cs) = sum_list (map count_leaf cs)"

fun count_binary :: "pyexpr \<Rightarrow> nat" where
  "count_binary (Num v) = 0"
| "count_binary (Lst tag cs) =
     (if is_binary (Lst tag cs) then 1 else 0) + sum_list (map count_binary cs)"

definition count_lines :: "string \<Rightarrow> nat" where
  "count_lines s = length (filter (\<lambda>c. c = CHR 0x0A) s)"

text \<open>A number whose rendering holds no line end.\<close>

definition one_line :: "runtime \<Rightarrow> num \<Rightarrow> bool" where
  "one_line rt v = (CHR 0x0A \<notin> set (str_num rt v))"

subsection \<open>The states of the random source\<close>

text \<open>
  A raw draw is accepted when the float \<^verbatim>\<open>random.random()\<close> makes of it is rendered without
  \<^verbatim>\<open>e\<close>. A source is fair when accepted draws never run out. Python renders with an \<^verbatim>\<open>e\<close>
  only the floats between 0 and \<open>10\<^sup>-\<^sup>4\<close>, and no state of its generator yields floats of
  that band for ever: the states of the random source are the fair streams.
\<close>

definition accepted :: "runtime \<Rightarrow> nat \<Rightarrow> bool" where
  "accepted rt d = (\<not> has_e (str_float rt (d mod 2 ^ 53)))"

definition fair :: "runtime \<Rightarrow> rng \<Rightarrow> bool" where
  "fair rt g = (\<forall>m. \<exists>n\<ge>m. accepted rt (g !! n))"

subsection \<open>A sample runtime\<close>

text \<open>
  An instance of the runtime for concrete runs. Its float rendering prints every digit of
  \<open>k / 2\<^sup>5\<^sup>3 = k * 5\<^sup>5\<^sup>3 / 10\<^sup>5\<^sup>3\<close> (for \<open>k < 2\<^sup>5\<^sup>3\<close>), in exponent notation below \<open>10\<^sup>-\<^sup>4\<close>
  as Python does; Python stops at the shortest digits that read back as the same float.
  Its \<^verbatim>\<open>int\<close> reads decimal digits after an optional minus sign, and it allows 995
  nested calls.
\<close>

definition strip_zeros :: "string \<Rightarrow> string" where
  "strip_zeros s = rev (dropWhile (\<lambda>c. c = CHR ''0'') (rev s))"

definition exact_str_float :: "nat \<Rightarrow> string" where
  "exact_str_float k =
     (let ds = str_nat (k * 5 ^ 53); fr = strip_zeros ds; ex = str_nat (54 - length ds) in
      if k = 0 then ''0.0''
      else if k * 10000 < 2 ^ 53 then
        hd fr # (if tl fr = [] then [] else CHR ''.'' # tl fr) @ ''e-'' @
        (if length ex < 2 then CHR ''0'' # ex else ex)
      else ''0.'' @ replicate (53 - length ds) (CHR ''0'') @ fr)"

fun nat_of_digits :: "nat \<Rightarrow> string \<Rightarrow> nat option" where
  "nat_of_digits acc [] = Some acc"
| "nat_of_digits acc (c # cs) =
     (case map_of (zip ''0123456789'' [0, 1, 2, 3, 4, 5, 6, 7, 8, 9]) c of
        None \<Rightarrow> None
      | Some d \<Rightarrow> nat_of_digits (10 * acc + d) cs)"

definition dec_int_of_str :: "string \<Rightarrow> int option" where
  "dec_int_of_str s =
     (case s of
        [] \<Rightarrow> None
      | c # cs \<Rightarrow>
          if c = CHR ''-'' then (if cs = [] then None else map_option (\<lambda>n. - int n) (nat_of_digits 0 cs))
          else map_option int (nat_of_digits 0 s))"

definition sample_rt :: runtime where
  "sample_rt =
     \<lparr>str_float = exact_str_float, int_of_str = dec_int_of_str, call_limit = 995\<rparr>"

text \<open>
  A random source for concrete runs: eleven draws, then zeros for ever. With
  \<^verbatim>\<open>max_rec = 2\<close> the draws are used as \<^verbatim>\<open>randint(0, 2) = 2\<close> (a binary node);
  \<^verbatim>\<open>randint(0, 1) = 1\<close> (a unary node), \<^verbatim>\<open>randint(0, 0) = 0\<close>, \<^verbatim>\<open>randint(0, 1) = 1\<close>
  (an integer), \<^verbatim>\<open>randint(-1000, 1000) = -993\<close>, \<^verbatim>\<open>choice(["neg"])\<close>;
  \<^verbatim>\<open>randint(0, 1) = 0\<close> (a leaf), \<^verbatim>\<open>randint(0, 1) = 0\<close> (a float), \<^verbatim>\<open>random()\<close> twice (the
  first float is redrawn); and the \<^verbatim>\<open>choice\<close> of \<^verbatim>\<open>"mult"\<close>.
\<close>

definition sample_draws :: rng where
  "sample_draws = 2 ## 1 ## 0 ## 1 ## 7 ## 4 ## 0 ## 0 ## 2 ## 0 ## 2 ## sconst 0"


section \<open>Properties\<close>

subsection \<open>The random source\<close>

lemma py_randint_in_range:
  assumes "py_randint a b g = Inr (r, g')"
  shows "a \<le> r" and "r \<le> b" and "g' = stl g"
proof -
  from assms have ab: "a \<le> b" and r: "r = a + int (shd g mod nat (b - a + 1))" and "g' = stl g"
    by (auto simp: py_randint_def split: if_splits)
  then show "g' = stl g" by simp
  show "a \<le> r" using r by simp
  have "shd g mod nat (b - a + 1) < nat (b - a + 1)"
    using ab by (intro mod_less_divisor) simp
  then show "r \<le> b" using r ab by linarith
qed

lemma py_randint_onto:
  "a \<le> v \<Longrightarrow> v \<le> b \<Longrightarrow> py_randint a b (nat (v - a) ## g) = Inr (v, g)"
  by (simp add: py_randint_def)

lemma py_randint_empty: "b < a \<Longrightarrow> py_randint a b g = Inl ValueError"
  by (simp add: py_randint_def)

lemma py_randint_0_eq:
  "0 \<le> max_rec \<Longrightarrow>
   py_randint 0 max_rec g = Inr (int (shd g mod nat (max_rec + 1)), stl g)"
  by (simp add: py_randint_def)

lemma py_choice_member:
  "py_choice xs g = Inr (x, g') \<Longrightarrow> x \<in> set xs \<and> g' = stl g"
  by (auto simp: py_choice_def split: if_splits)

lemma rand_instr1_eq: "rand_instr1 a g = Inr (Lst ''neg'' [a], stl g)"
  by (simp add: rand_instr1_def py_choice_def)

lemma rand_instr2_eq:
  "rand_instr2 a b g = Inr (Lst ([''add'', ''sub'', ''mult''] ! (shd g mod 3)) [a, b], stl g)"
  by (simp add: rand_instr2_def py_choice_def)

subsection \<open>The redraw loop\<close>

lemma rand_no_exp_accept:
  "accepted rt (shd g) \<Longrightarrow> rand_no_exp rt g = Some (shd g mod 2 ^ 53, stl g)"
  by (subst rand_no_exp.simps) (simp add: accepted_def py_random_def)

lemma rand_no_exp_reject:
  "\<not> accepted rt (shd g) \<Longrightarrow> rand_no_exp rt g = rand_no_exp rt (stl g)"
  by (subst rand_no_exp.simps) (simp add: accepted_def py_random_def)

lemma rand_no_exp_first:
  "\<forall>i<n. \<not> accepted rt (g !! i) \<Longrightarrow> accepted rt (g !! n) \<Longrightarrow>
   rand_no_exp rt g = Some (g !! n mod 2 ^ 53, sdrop (Suc n) g)"
proof (induction n arbitrary: g)
  case 0
  then show ?case by (simp add: rand_no_exp_accept)
next
  case (Suc n)
  from Suc.prems(1) have "\<not> accepted rt (shd g)" by (metis snth.simps(1) zero_less_Suc)
  then have "rand_no_exp rt g = rand_no_exp rt (stl g)" by (rule rand_no_exp_reject)
  moreover have "\<forall>i<n. \<not> accepted rt (stl g !! i)" using Suc.prems(1) by auto
  moreover have "accepted rt (stl g !! n)" using Suc.prems(2) by simp
  ultimately show ?case using Suc.IH [of "stl g"] by simp
qed

lemma rand_no_exp_sound:
  assumes "rand_no_exp rt g = Some y"
  shows "\<exists>n. (\<forall>i<n. \<not> accepted rt (g !! i)) \<and> accepted rt (g !! n) \<and>
       y = (g !! n mod 2 ^ 53, sdrop (Suc n) g)"
proof (rule rand_no_exp.raw_induct
    [where P = "\<lambda>rt g y. \<exists>n. (\<forall>i<n. \<not> accepted rt (g !! i)) \<and> accepted rt (g !! n) \<and>
       y = (g !! n mod 2 ^ 53, sdrop (Suc n) g)", OF _ assms], goal_cases)
  case (1 f rt g y)
  show ?case
  proof (cases "accepted rt (shd g)")
    case True
    with 1(2) have "y = (shd g mod 2 ^ 53, stl g)"
      by (simp add: accepted_def py_random_def)
    with True show ?thesis by (intro exI [of _ 0]) simp
  next
    case False
    with 1(2) have "f rt (stl g) = Some y"
      by (simp add: accepted_def py_random_def)
    from 1(1) [OF this] obtain n where
      "(\<forall>i<n. \<not> accepted rt (stl g !! i)) \<and> accepted rt (stl g !! n) \<and>
       y = (stl g !! n mod 2 ^ 53, sdrop (Suc n) (stl g))" ..
    then have n1: "\<forall>i<n. \<not> accepted rt (stl g !! i)" and n2: "accepted rt (stl g !! n)"
      and n3: "y = (stl g !! n mod 2 ^ 53, sdrop (Suc n) (stl g))"
      by simp_all
    have "\<forall>i<Suc n. \<not> accepted rt (g !! i)"
    proof (intro allI impI)
      fix i assume "i < Suc n"
      then show "\<not> accepted rt (g !! i)" using False n1 by (cases i) simp_all
    qed
    moreover have "accepted rt (g !! Suc n)" using n2 by simp
    moreover have "y = (g !! Suc n mod 2 ^ 53, sdrop (Suc (Suc n)) g)" using n3 by simp
    ultimately show ?thesis by (intro exI [of _ "Suc n"] conjI)
  qed
qed

lemma rand_no_exp_never:
  assumes "\<forall>n. \<not> accepted rt (g !! n)"
  shows "rand_no_exp rt g = None"
proof (cases "rand_no_exp rt g")
  case None
  then show ?thesis .
next
  case (Some y)
  from rand_no_exp_sound [OF this] assms show ?thesis by blast
qed

lemma rand_no_exp_None_iff: "rand_no_exp rt g = None \<longleftrightarrow> (\<forall>n. \<not> accepted rt (g !! n))"
proof
  assume none: "rand_no_exp rt g = None"
  show "\<forall>n. \<not> accepted rt (g !! n)"
  proof (rule ccontr)
    assume "\<not> (\<forall>n. \<not> accepted rt (g !! n))"
    then obtain n where n: "accepted rt (g !! n)" by blast
    define k where "k = (LEAST n. accepted rt (g !! n))"
    have "accepted rt (g !! k)" unfolding k_def using n by (rule LeastI)
    moreover have "\<forall>i<k. \<not> accepted rt (g !! i)" unfolding k_def using not_less_Least by blast
    ultimately have "rand_no_exp rt g = Some (g !! k mod 2 ^ 53, sdrop (Suc k) g)"
      by (intro rand_no_exp_first)
    with none show False by simp
  qed
next
  assume "\<forall>n. \<not> accepted rt (g !! n)"
  then show "rand_no_exp rt g = None" by (rule rand_no_exp_never)
qed

lemma rand_no_exp_fair:
  assumes "fair rt g"
  shows "\<exists>n. rand_no_exp rt g = Some (g !! n mod 2 ^ 53, sdrop (Suc n) g) \<and> accepted rt (g !! n)"
proof -
  from assms obtain n where "accepted rt (g !! n)" unfolding fair_def by blast
  define k where "k = (LEAST n. accepted rt (g !! n))"
  have "accepted rt (g !! k)" unfolding k_def using \<open>accepted rt (g !! n)\<close> by (rule LeastI)
  moreover have "\<forall>i<k. \<not> accepted rt (g !! i)" unfolding k_def using not_less_Least by blast
  ultimately show ?thesis using rand_no_exp_first by blast
qed

lemma fair_sdrop: "fair rt g \<Longrightarrow> fair rt (sdrop k g)"
  unfolding fair_def
proof (intro allI)
  fix m assume h: "\<forall>m. \<exists>n\<ge>m. accepted rt (g !! n)"
  then obtain n where "n \<ge> m + k" "accepted rt (g !! n)" by blast
  then have "n - k \<ge> m" "accepted rt (sdrop k g !! (n - k))" by (auto simp: sdrop_snth)
  then show "\<exists>n\<ge>m. accepted rt (sdrop k g !! n)" by blast
qed

lemma fair_stl: "fair rt g \<Longrightarrow> fair rt (stl g)"
  using fair_sdrop [of rt g 1] by simp

lemma fair_SCons: "fair rt g \<Longrightarrow> fair rt (x ## g)"
  unfolding fair_def
proof (intro allI)
  fix m assume "\<forall>m. \<exists>n\<ge>m. accepted rt (g !! n)"
  then obtain n where "n \<ge> m" "accepted rt (g !! n)" by blast
  then have "Suc n \<ge> m" "accepted rt ((x ## g) !! Suc n)" by simp_all
  then show "\<exists>n\<ge>m. accepted rt ((x ## g) !! n)" by blast
qed

lemma fair_sconst: "accepted rt d \<Longrightarrow> fair rt (sconst d)"
  by (auto simp: fair_def)


subsection \<open>The value policy\<close>

lemma rand_val_eq:
  "rand_val rt g =
     (if odd (shd g) then Some (Inr (PyInt (- 1000 + int (shd (stl g) mod 2001)), stl (stl g)))
      else (case rand_no_exp rt (stl g) of
              None \<Rightarrow> None
            | Some (r, g2) \<Rightarrow> Some (Inr (PyFloat r, g2))))"
  by (simp add: rand_val_def py_randint_def odd_iff_mod_2_eq_one)

lemma rand_val_no_error: "rand_val rt g \<noteq> Some (Inl err)"
  by (simp add: rand_val_eq split: option.splits)

lemma rand_val_sound:
  assumes "rand_val rt g = Some (Inr (v, g'))"
  shows "leaf_ok rt v" and "\<exists>k. g' = sdrop k g"
proof -
  show "leaf_ok rt v"
  proof (cases "odd (shd g)")
    case True
    with assms have "v = PyInt (- 1000 + int (shd (stl g) mod 2001))" by (simp add: rand_val_eq)
    moreover have "shd (stl g) mod 2001 < 2001" by simp
    ultimately show ?thesis by simp
  next
    case False
    with assms obtain r where r: "rand_no_exp rt (stl g) = Some (r, g')" and v: "v = PyFloat r"
      by (auto simp: rand_val_eq split: option.splits)
    from rand_no_exp_sound [OF r] obtain n where "accepted rt (stl g !! n)"
      and "r = stl g !! n mod 2 ^ 53" by auto
    then show ?thesis using v by (simp add: accepted_def)
  qed
  show "\<exists>k. g' = sdrop k g"
  proof (cases "odd (shd g)")
    case True
    with assms have "g' = sdrop 2 g" by (simp add: rand_val_eq numeral_2_eq_2)
    then show ?thesis ..
  next
    case False
    with assms obtain r where r: "rand_no_exp rt (stl g) = Some (r, g')"
      by (auto simp: rand_val_eq split: option.splits)
    from rand_no_exp_sound [OF r] obtain n where "g' = sdrop (Suc n) (stl g)" by auto
    then have "g' = sdrop (Suc (Suc n)) g" by simp
    then show ?thesis ..
  qed
qed

lemma rand_val_fair:
  assumes "fair rt g"
  shows "\<exists>v k. rand_val rt g = Some (Inr (v, sdrop k g))"
proof (cases "odd (shd g)")
  case True
  then have "rand_val rt g = Some (Inr (PyInt (- 1000 + int (shd (stl g) mod 2001)), sdrop 2 g))"
    by (simp add: rand_val_eq numeral_2_eq_2)
  then show ?thesis by blast
next
  case False
  from rand_no_exp_fair [OF fair_stl [OF assms]] obtain n where
    "rand_no_exp rt (stl g) = Some (stl g !! n mod 2 ^ 53, sdrop (Suc n) (stl g))" by blast
  with False have "rand_val rt g = Some (Inr (PyFloat (stl g !! n mod 2 ^ 53), sdrop (Suc (Suc n)) g))"
    by (simp add: rand_val_eq)
  then show ?thesis by blast
qed

lemma rand_val_int_onto:
  "- 1000 \<le> v \<Longrightarrow> v \<le> 1000 \<Longrightarrow>
   rand_val rt (1 ## nat (v + 1000) ## g) = Some (Inr (PyInt v, g))"
  by (simp add: rand_val_eq)

subsection \<open>One step of the generator\<close>

lemma rand_expr_no_calls: "rand_expr rt 0 max_rec g = Some (Inl RecursionError)"
  by (subst rand_expr.simps) simp

lemma rand_expr_neg:
  "max_rec < 0 \<Longrightarrow> rand_expr rt (Suc c) max_rec g = Some (Inl ValueError)"
  by (subst rand_expr.simps) (simp add: py_randint_def)

lemma rand_expr_leaf_step:
  "py_randint 0 max_rec g = Inr (r, g1) \<Longrightarrow> r = 0 \<or> max_rec \<le> 0 \<Longrightarrow>
   rand_expr rt (Suc c) max_rec g =
     (case rand_val rt g1 of
        None \<Rightarrow> None
      | Some (Inl e) \<Rightarrow> Some (Inl e)
      | Some (Inr (v, g2)) \<Rightarrow> Some (Inr (Num v, g2)))"
  by (subst rand_expr.simps) simp

lemma rand_expr_unary_step:
  "py_randint 0 max_rec g = Inr (r, g1) \<Longrightarrow> \<not> (r = 0 \<or> max_rec \<le> 0) \<Longrightarrow> r \<le> 1 \<Longrightarrow>
   rand_expr rt (Suc c) max_rec g =
     (case rand_expr rt c (max_rec - 1) g1 of
        None \<Rightarrow> None
      | Some (Inl e) \<Rightarrow> Some (Inl e)
      | Some (Inr (a, g2)) \<Rightarrow> Some (rand_instr1 a g2))"
  by (subst rand_expr.simps) simp

lemma rand_expr_binary_step:
  "py_randint 0 max_rec g = Inr (r, g1) \<Longrightarrow> \<not> (r = 0 \<or> max_rec \<le> 0) \<Longrightarrow> \<not> r \<le> 1 \<Longrightarrow>
   rand_expr rt (Suc c) max_rec g =
     (case rand_expr rt c (max_rec - 1) g1 of
        None \<Rightarrow> None
      | Some (Inl e) \<Rightarrow> Some (Inl e)
      | Some (Inr (a, g2)) \<Rightarrow>
          (case rand_expr rt c (max_rec - 1) g2 of
             None \<Rightarrow> None
           | Some (Inl e) \<Rightarrow> Some (Inl e)
           | Some (Inr (b, g3)) \<Rightarrow> Some (rand_instr2 a b g3)))"
  by (subst rand_expr.simps) (simp cong: option.case_cong sum.case_cong)

lemma rand_expr_0_eq:
  "rand_expr rt (Suc c) 0 g =
     (case rand_val rt (stl g) of
        None \<Rightarrow> None
      | Some (Inl e) \<Rightarrow> Some (Inl e)
      | Some (Inr (v, g2)) \<Rightarrow> Some (Inr (Num v, g2)))"
  by (rule rand_expr_leaf_step [of 0 g 0]) (simp_all add: py_randint_def)

subsection \<open>Generated trees\<close>

lemma rand_expr_sound:
  "rand_expr rt calls max_rec g = Some (Inr (e, g')) \<Longrightarrow>
   depth e \<le> nat max_rec \<and> depth e < calls \<and> gen_shape e \<and>
   list_all (leaf_ok rt) (leaves e) \<and> (\<exists>k. g' = sdrop k g)"
proof (induction calls arbitrary: max_rec g e g')
  case 0
  then show ?case by (simp add: rand_expr_no_calls)
next
  case (Suc c)
  show ?case
  proof (cases "max_rec < 0")
    case True
    with Suc.prems show ?thesis by (simp add: rand_expr_neg)
  next
    case False
    define r where "r = int (shd g mod nat (max_rec + 1))"
    have pr: "py_randint 0 max_rec g = Inr (r, stl g)"
      using False by (simp add: py_randint_0_eq r_def)
    show ?thesis
    proof (cases "r = 0 \<or> max_rec \<le> 0")
      case True
      from Suc.prems obtain v where v: "rand_val rt (stl g) = Some (Inr (v, g'))" and e: "e = Num v"
        by (auto simp: rand_expr_leaf_step [OF pr True] split: option.splits sum.splits)
      from rand_val_sound [OF v] obtain k where "leaf_ok rt v" and "g' = sdrop k (stl g)" by blast
      then have "g' = sdrop (Suc k) g" by simp
      then have "\<exists>k. g' = sdrop k g" ..
      moreover have "depth e \<le> nat max_rec" "depth e < Suc c" "gen_shape e"
        "list_all (leaf_ok rt) (leaves e)"
        using \<open>leaf_ok rt v\<close> e by simp_all
      ultimately show ?thesis by blast
    next
      case nl: False
      then have pos: "0 < max_rec" by simp
      show ?thesis
      proof (cases "r \<le> 1")
        case True
        from Suc.prems obtain a g2 where a: "rand_expr rt c (max_rec - 1) (stl g) = Some (Inr (a, g2))"
          and e: "e = Lst ''neg'' [a]" and g': "g' = stl g2"
          by (auto simp: rand_expr_unary_step [OF pr nl True] rand_instr1_eq
              split: option.splits sum.splits)
        from Suc.IH [OF a] obtain k where
          ih: "depth a \<le> nat (max_rec - 1)" "depth a < c" "gen_shape a"
            "list_all (leaf_ok rt) (leaves a)"
          and k: "g2 = sdrop k (stl g)" by blast
        have "g' = sdrop (Suc (Suc k)) g" using g' k by simp
        moreover have "depth e \<le> nat max_rec" using ih(1) pos e by simp
        moreover have "depth e < Suc c" using ih(2) e by simp
        moreover have "gen_shape e" using ih(3) e by (simp add: is_unary_def)
        moreover have "list_all (leaf_ok rt) (leaves e)" using ih(4) e by simp
        ultimately show ?thesis by blast
      next
        case False
        from Suc.prems obtain a g2 b g3 where
          a: "rand_expr rt c (max_rec - 1) (stl g) = Some (Inr (a, g2))"
          and b: "rand_expr rt c (max_rec - 1) g2 = Some (Inr (b, g3))"
          and e: "e = Lst ([''add'', ''sub'', ''mult''] ! (shd g3 mod 3)) [a, b]"
          and g': "g' = stl g3"
          by (auto simp: rand_expr_binary_step [OF pr nl False] rand_instr2_eq
              split: option.splits sum.splits)
        from Suc.IH [OF a] obtain k where
          iha: "depth a \<le> nat (max_rec - 1)" "depth a < c" "gen_shape a"
            "list_all (leaf_ok rt) (leaves a)"
          and k: "g2 = sdrop k (stl g)" by blast
        from Suc.IH [OF b] obtain j where
          ihb: "depth b \<le> nat (max_rec - 1)" "depth b < c" "gen_shape b"
            "list_all (leaf_ok rt) (leaves b)"
          and j: "g3 = sdrop j g2" by blast
        have "g' = sdrop (Suc (Suc (k + j))) g" using g' k j by simp
        moreover have "depth e \<le> nat max_rec" using iha(1) ihb(1) pos e by simp
        moreover have "depth e < Suc c" using iha(2) ihb(2) e by simp
        moreover have "[''add'', ''sub'', ''mult''] ! (shd g3 mod 3) \<in> set [''add'', ''sub'', ''mult'']"
          by (intro nth_mem) simp
        then have "gen_shape e" using iha(3) ihb(3) e by (simp add: is_binary_def)
        moreover have "list_all (leaf_ok rt) (leaves e)" using iha(4) ihb(4) e by simp
        ultimately show ?thesis by blast
      qed
    qed
  qed
qed






lemma gen_shape_cases:
  assumes "gen_shape n"
  shows "(\<exists>v. n = Num v) \<or> (\<exists>c. n = Lst ''neg'' [c]) \<or>
         (\<exists>tag a b. n = Lst tag [a, b] \<and> tag \<in> set [''add'', ''sub'', ''mult''])"
proof (cases n)
  case (Num v)
  then show ?thesis by simp
next
  case (Lst tag cs)
  with assms consider "tag = ''neg''" "length cs = 1"
    | "tag \<in> set [''add'', ''sub'', ''mult'']" "length cs = 2"
    by (auto simp: is_unary_def is_binary_def)
  then show ?thesis
  proof cases
    case 1
    then obtain c where "cs = [c]" by (cases cs) auto
    with 1 Lst show ?thesis by simp
  next
    case 2
    then obtain a b where "cs = [a, b]" by (cases cs; cases "tl cs") auto
    with 2 Lst show ?thesis by simp
  qed
qed

subsection \<open>The printer\<close>

text \<open>The printer takes the branch that \<open>dispatch\<close> names.\<close>

lemma print_expr_dispatch:
  "(case dispatch e of
      NumberBranch \<Rightarrow>
        \<exists>v. e = Num v \<and> print_expr rt e indent newline = spacing indent newline @ str_num rt v @ eol
    | PairBranch \<Rightarrow>
        \<exists>tag c. e = Lst tag [c] \<and>
          print_expr rt e indent newline =
            spacing indent newline @ tag @ print_expr rt c (indent + 1) False
    | ElseBranch \<Rightarrow>
        \<exists>tag cs. e = Lst tag cs \<and> length cs \<noteq> 1 \<and>
          print_expr rt e indent newline =
            spacing indent newline @ tag @ eol @
            concat (map (\<lambda>c. print_expr rt c (indent + 1) True) cs))"
proof (cases e)
  case (Num v)
  then show ?thesis by (simp add: dispatch_def)
next
  case (Lst tag cs)
  show ?thesis
  proof (cases cs)
    case Nil
    with Lst show ?thesis by (simp add: dispatch_def)
  next
    case (Cons c cs')
    with Lst show ?thesis by (cases cs') (simp_all add: dispatch_def)
  qed
qed

lemma count_lines_Nil [simp]: "count_lines [] = 0"
  by (simp add: count_lines_def)

lemma count_lines_Cons [simp]:
  "count_lines (c # s) = (if c = CHR 0x0A then 1 else 0) + count_lines s"
  by (simp add: count_lines_def)

lemma count_lines_append [simp]: "count_lines (a @ b) = count_lines a + count_lines b"
  by (simp add: count_lines_def)

lemma count_lines_spacing [simp]: "count_lines (spacing indent newline) = 0"
  by (simp add: count_lines_def spacing_def)

lemma set_str_nat: "set (str_nat n) \<subseteq> set ''0123456789''"
proof (induction n rule: str_nat.induct)
  case (1 n)
  have d: "''0123456789'' ! k \<in> set ''0123456789''" if "k < 10" for k
    using that by (intro nth_mem) simp
  show ?case
  proof (cases "n < 10")
    case True
    then show ?thesis using d [of n] by (subst str_nat.simps) simp
  next
    case False
    have "n mod 10 < 10" by simp
    from d [OF this] 1 [OF False] False show ?thesis by (subst str_nat.simps) simp
  qed
qed

lemma one_line_int: "one_line rt (PyInt i)"
  using set_str_nat [of "nat i"] set_str_nat [of "nat (- i)"]
  by (auto simp: one_line_def str_int_def)

lemma count_lines_one_line: "one_line rt v \<Longrightarrow> count_lines (str_num rt v) = 0"
  by (auto simp: one_line_def count_lines_def filter_empty_conv)

lemma str_int_3: "str_int 3 = ''3''" and str_int_4: "str_int 4 = ''4''"
  and str_int_5: "str_int 5 = ''5''" and str_int_m993: "str_int (- 993) = ''-993''"
  by (simp_all add: str_int_def str_nat.simps)

subsection \<open>Runs of the sample runtime\<close>

lemma exact_str_float_0: "exact_str_float 0 = ''0.0''"
  by (simp add: exact_str_float_def)

lemma exact_str_float_2: "exact_str_float 2 = ''2.220446049250313080847263336181640625e-16''"
  by (simp add: exact_str_float_def strip_zeros_def str_nat.simps Let_def)

lemma accepted_sample_0: "accepted sample_rt 0"
  by (simp add: accepted_def sample_rt_def exact_str_float_0 has_e_def)

lemma rejected_sample_2: "\<not> accepted sample_rt 2"
  by (simp add: accepted_def sample_rt_def exact_str_float_2 has_e_def)


lemma rand_expr_sample_draws:
  "rand_expr sample_rt (Suc (Suc (Suc c))) 2 sample_draws =
     Some (Inr (Lst ''mult'' [Lst ''neg'' [Num (PyInt (- 993))], Num (PyFloat 0)], sconst 0))"
  using accepted_sample_0 rejected_sample_2
  by (simp add: sample_draws_def rand_expr.simps py_randint_def rand_val_eq rand_instr1_eq
      rand_instr2_eq rand_no_exp_accept rand_no_exp_reject)

lemma rand_expr_sample_run:
  "rand_expr sample_rt (call_limit sample_rt) 2 sample_draws =
     Some (Inr (Lst ''mult'' [Lst ''neg'' [Num (PyInt (- 993))], Num (PyFloat 0)], sconst 0))"
proof -
  have "call_limit sample_rt = Suc (Suc (Suc 992))" by (simp add: sample_rt_def)
  then show ?thesis by (simp only: rand_expr_sample_draws)
qed

section \<open>The claims\<close>

subsection \<open>The generator\<close>

text \<open>
  C1: for \<open>max_rec \<ge> 0\<close>, a call of \<^verbatim>\<open>rand_expr(max_rec)\<close> (one that the recursion limit
  allows, its children being left with one nested call fewer) first draws \<open>r = randint(0, max_rec)\<close>, which lies in \<open>[0, max_rec]\<close> (and every number of
  the range is drawn by some source). If \<open>r = 0\<close> or \<open>max_rec \<le> 0\<close> the result is the leaf
  of the value policy; if \<open>r = 1\<close> it is \<^verbatim>\<open>["neg", child]\<close> with the child generated by
  \<^verbatim>\<open>rand_expr(max_rec - 1)\<close>; otherwise it is \<^verbatim>\<open>[op, left, right]\<close> with both children
  generated by \<^verbatim>\<open>rand_expr(max_rec - 1)\<close>, one after the other, and \<open>op\<close> the
  \<^verbatim>\<open>random.choice\<close> among add, sub and mult. A returned value is a Leaf exactly when
  \<open>r = 0\<close> or \<open>max_rec \<le> 0\<close>, a Unary node exactly when \<open>r = 1\<close>, a Binary node exactly when
  \<open>r > 1\<close>.
\<close>

theorem rand_expr_step:
  "0 \<le> max_rec \<Longrightarrow>
   \<exists>r. py_randint 0 max_rec g = Inr (r, stl g) \<and> 0 \<le> r \<and> r \<le> max_rec \<and>
     (\<forall>v g0. 0 \<le> v \<and> v \<le> max_rec \<longrightarrow> py_randint 0 max_rec (nat v ## g0) = Inr (v, g0)) \<and>
     rand_expr rt (Suc c) max_rec g =
       (if r = 0 \<or> max_rec \<le> 0 then
          (case rand_val rt (stl g) of
             None \<Rightarrow> None
           | Some (Inl e) \<Rightarrow> Some (Inl e)
           | Some (Inr (v, g2)) \<Rightarrow> Some (Inr (Num v, g2)))
        else if r = 1 then
          (case rand_expr rt c (max_rec - 1) (stl g) of
             None \<Rightarrow> None
           | Some (Inl e) \<Rightarrow> Some (Inl e)
           | Some (Inr (a, g2)) \<Rightarrow> Some (Inr (Lst ''neg'' [a], stl g2)))
        else
          (case rand_expr rt c (max_rec - 1) (stl g) of
             None \<Rightarrow> None
           | Some (Inl e) \<Rightarrow> Some (Inl e)
           | Some (Inr (a, g2)) \<Rightarrow>
               (case rand_expr rt c (max_rec - 1) g2 of
                  None \<Rightarrow> None
                | Some (Inl e) \<Rightarrow> Some (Inl e)
                | Some (Inr (b, g3)) \<Rightarrow>
                    (case py_choice [''add'', ''sub'', ''mult''] g3 of
                       Inl e \<Rightarrow> Some (Inl e)
                     | Inr (tag, g4) \<Rightarrow> Some (Inr (Lst tag [a, b], g4)))))) \<and>
     (\<forall>e g'. rand_expr rt (Suc c) max_rec g = Some (Inr (e, g')) \<longrightarrow>
        (is_leaf e \<longleftrightarrow> r = 0 \<or> max_rec \<le> 0) \<and> (is_unary e \<longleftrightarrow> r = 1) \<and>
        (is_binary e \<longleftrightarrow> 1 < r))"
proof -
  assume m: "0 \<le> max_rec"
  define r where "r = int (shd g mod nat (max_rec + 1))"
  have pr: "py_randint 0 max_rec g = Inr (r, stl g)"
    using m by (simp add: py_randint_0_eq r_def)
  have r0: "0 \<le> r" and rm: "r \<le> max_rec"
    using py_randint_in_range [OF pr] by simp_all
  have onto: "\<forall>v g0. 0 \<le> v \<and> v \<le> max_rec \<longrightarrow> py_randint 0 max_rec (nat v ## g0) = Inr (v, g0)"
    using py_randint_onto [of 0 _ max_rec] by simp
  let ?leaf = "case rand_val rt (stl g) of
             None \<Rightarrow> None
           | Some (Inl e) \<Rightarrow> Some (Inl e)
           | Some (Inr (v, g2)) \<Rightarrow> Some (Inr (Num v, g2))"
  let ?unary = "case rand_expr rt c (max_rec - 1) (stl g) of
             None \<Rightarrow> None
           | Some (Inl e) \<Rightarrow> Some (Inl e)
           | Some (Inr (a, g2)) \<Rightarrow> Some (Inr (Lst ''neg'' [a], stl g2))"
  let ?binary = "case rand_expr rt c (max_rec - 1) (stl g) of
             None \<Rightarrow> None
           | Some (Inl e) \<Rightarrow> Some (Inl e)
           | Some (Inr (a, g2)) \<Rightarrow>
               (case rand_expr rt c (max_rec - 1) g2 of
                  None \<Rightarrow> None
                | Some (Inl e) \<Rightarrow> Some (Inl e)
                | Some (Inr (b, g3)) \<Rightarrow>
                    (case py_choice [''add'', ''sub'', ''mult''] g3 of
                       Inl e \<Rightarrow> Some (Inl e)
                     | Inr (tag, g4) \<Rightarrow> Some (Inr (Lst tag [a, b], g4))))"
  have leaf: "rand_expr rt (Suc c) max_rec g = ?leaf" if "r = 0 \<or> max_rec \<le> 0"
    using rand_expr_leaf_step [OF pr that] .
  have unary: "rand_expr rt (Suc c) max_rec g = ?unary" if "\<not> (r = 0 \<or> max_rec \<le> 0)" "r = 1"
    using rand_expr_unary_step [OF pr that(1), of rt c] that(2)
    by (simp add: rand_instr1_eq cong: option.case_cong sum.case_cong)
  have binary: "rand_expr rt (Suc c) max_rec g = ?binary" if "\<not> (r = 0 \<or> max_rec \<le> 0)" "r \<noteq> 1"
  proof -
    from that r0 have "\<not> r \<le> 1" by simp
    from rand_expr_binary_step [OF pr that(1) this, of rt c] show ?thesis
      by (simp add: rand_instr2_def split: option.splits sum.splits prod.splits)
  qed
  have eq: "rand_expr rt (Suc c) max_rec g =
      (if r = 0 \<or> max_rec \<le> 0 then ?leaf else if r = 1 then ?unary else ?binary)"
    using leaf unary binary by simp
  have kinds: "(is_leaf e \<longleftrightarrow> r = 0 \<or> max_rec \<le> 0) \<and> (is_unary e \<longleftrightarrow> r = 1) \<and>
        (is_binary e \<longleftrightarrow> 1 < r)" if ret: "rand_expr rt (Suc c) max_rec g = Some (Inr (e, g'))" for e g'
  proof (cases "r = 0 \<or> max_rec \<le> 0")
    case True
    with ret leaf obtain v where "e = Num v"
      by (auto split: option.splits sum.splits)
    moreover from True r0 rm have "r = 0" by auto
    ultimately show ?thesis by (simp add: is_leaf_def is_unary_def is_binary_def)
  next
    case nl: False
    show ?thesis
    proof (cases "r = 1")
      case True
      with ret unary [OF nl] obtain a where "e = Lst ''neg'' [a]"
        by (auto split: option.splits sum.splits)
      with True nl show ?thesis by (simp add: is_leaf_def is_unary_def is_binary_def)
    next
      case False
      with ret binary [OF nl] obtain a b tag g3 g4 where e: "e = Lst tag [a, b]"
        and ch: "py_choice [''add'', ''sub'', ''mult''] g3 = Inr (tag, g4)"
        by (auto split: option.splits sum.splits)
      have "tag \<in> set [''add'', ''sub'', ''mult'']"
        using py_choice_member [OF ch] by (rule conjunct1)
      moreover from False nl r0 have "1 < r" by auto
      ultimately show ?thesis using e nl by (auto simp: is_leaf_def is_unary_def is_binary_def)
    qed
  qed
  from pr r0 rm onto eq kinds show ?thesis by blast
qed

theorem rand_expr_step_witness:
  "py_randint 0 2 sample_draws = Inr (2, stl sample_draws) \<and>
   is_binary (Lst ''mult'' [Lst ''neg'' [Num (PyInt (- 993))], Num (PyFloat 0)]) \<and>
   rand_expr sample_rt (call_limit sample_rt) 2 sample_draws =
     Some (Inr (Lst ''mult'' [Lst ''neg'' [Num (PyInt (- 993))], Num (PyFloat 0)], sconst 0))"
proof -
  have lim: "call_limit sample_rt = Suc 994" by (simp add: sample_rt_def)
  from rand_expr_step [of 2 sample_draws sample_rt 994] rand_expr_sample_run
  show ?thesis unfolding lim by (auto simp: py_randint_def sample_draws_def)
qed




text \<open>
  C3: the value policy draws \<open>b = randint(0, 1)\<close>. When \<open>b\<close> is 1 the value is the integer
  \<^verbatim>\<open>randint(-1000, 1000)\<close>, which lies in \<open>[-1000, 1000]\<close> (and every integer of that range is
  produced by some source). When \<open>b\<close> is 0 the value is what the redraw loop returns, and
  the loop redraws until the rendering has no \<^verbatim>\<open>e\<close>: when the first \<open>n\<close> floats drawn are
  rendered with an \<^verbatim>\<open>e\<close> and the next one is not, it returns that one, a float of \<open>[0, 1)\<close>,
  and it returns nothing else. On every state of the random source the policy produces a
  value. So every leaf value produced, and every leaf of a generated tree, is an integer of
  \<open>[-1000, 1000]\<close> or a float rendered without \<^verbatim>\<open>e\<close>.
\<close>

theorem rand_val_policy:
  "(\<exists>b. py_randint 0 1 g = Inr (b, stl g) \<and> (b = 0 \<or> b = 1) \<and>
      (if b \<noteq> 0 then
         (\<exists>v. py_randint (- 1000) 1000 (stl g) = Inr (v, stl (stl g)) \<and> - 1000 \<le> v \<and> v \<le> 1000 \<and>
              rand_val rt g = Some (Inr (PyInt v, stl (stl g))))
       else
         rand_val rt g =
           (case rand_no_exp rt (stl g) of
              None \<Rightarrow> None
            | Some (r, g2) \<Rightarrow> Some (Inr (PyFloat r, g2))))) \<and>
   (\<forall>v g0. - 1000 \<le> v \<and> v \<le> 1000 \<longrightarrow>
      rand_val rt (1 ## nat (v + 1000) ## g0) = Some (Inr (PyInt v, g0))) \<and>
   (\<forall>n. (\<forall>i<n. has_e (str_float rt (fst (py_random (sdrop i g))))) \<and>
        \<not> has_e (str_float rt (fst (py_random (sdrop n g)))) \<longrightarrow>
      rand_no_exp rt g = Some (py_random (sdrop n g)) \<and> fst (py_random (sdrop n g)) < 2 ^ 53) \<and>
   (\<forall>r g2. rand_no_exp rt g = Some (r, g2) \<longrightarrow>
      (\<exists>n. (\<forall>i<n. has_e (str_float rt (fst (py_random (sdrop i g))))) \<and>
           py_random (sdrop n g) = (r, g2) \<and> r < 2 ^ 53 \<and> \<not> has_e (str_float rt r))) \<and>
   (fair rt g \<longrightarrow>
      (\<exists>r g2. rand_no_exp rt g = Some (r, g2) \<and> \<not> has_e (str_float rt r)) \<and>
      (\<exists>v g'. rand_val rt g = Some (Inr (v, g')) \<and> leaf_ok rt v)) \<and>
   (\<forall>v g'. rand_val rt g = Some (Inr (v, g')) \<longrightarrow> leaf_ok rt v) \<and>
   (\<forall>calls max_rec e g'. rand_expr rt calls max_rec g = Some (Inr (e, g')) \<longrightarrow>
      list_all (leaf_ok rt) (leaves e))"
proof (intro conjI allI impI)
  define b where "b = int (shd g mod 2)"
  have pb: "py_randint 0 1 g = Inr (b, stl g)" by (simp add: py_randint_def b_def)
  have b01: "b = 0 \<or> b = 1" unfolding b_def by (cases "even (shd g)") (simp_all add: odd_iff_mod_2_eq_one)
  have bodd: "b \<noteq> 0 \<longleftrightarrow> odd (shd g)" unfolding b_def by (simp add: odd_iff_mod_2_eq_one)
  define v where "v = - 1000 + int (shd (stl g) mod 2001)"
  have pv: "py_randint (- 1000) 1000 (stl g) = Inr (v, stl (stl g))"
    by (simp add: py_randint_def v_def)
  have vr: "- 1000 \<le> v" "v \<le> 1000" using py_randint_in_range [OF pv] by simp_all
  have "rand_val rt g = Some (Inr (PyInt v, stl (stl g)))" if "b \<noteq> 0"
    using that bodd by (simp add: rand_val_eq v_def)
  moreover have "rand_val rt g =
      (case rand_no_exp rt (stl g) of None \<Rightarrow> None | Some (r, g2) \<Rightarrow> Some (Inr (PyFloat r, g2)))"
    if "\<not> b \<noteq> 0"
    using that bodd by (simp add: rand_val_eq)
  ultimately show "\<exists>b. py_randint 0 1 g = Inr (b, stl g) \<and> (b = 0 \<or> b = 1) \<and>
      (if b \<noteq> 0 then
         (\<exists>v. py_randint (- 1000) 1000 (stl g) = Inr (v, stl (stl g)) \<and> - 1000 \<le> v \<and> v \<le> 1000 \<and>
              rand_val rt g = Some (Inr (PyInt v, stl (stl g))))
       else
         rand_val rt g =
           (case rand_no_exp rt (stl g) of
              None \<Rightarrow> None
            | Some (r, g2) \<Rightarrow> Some (Inr (PyFloat r, g2))))"
    using pb b01 pv vr by (intro exI [of _ b]) auto
next
  fix v :: int and g0 assume "- 1000 \<le> v \<and> v \<le> 1000"
  then show "rand_val rt (1 ## nat (v + 1000) ## g0) = Some (Inr (PyInt v, g0))"
    by (intro rand_val_int_onto) simp_all
next
  fix n
  assume h: "(\<forall>i<n. has_e (str_float rt (fst (py_random (sdrop i g))))) \<and>
        \<not> has_e (str_float rt (fst (py_random (sdrop n g))))"
  then have "\<forall>i<n. \<not> accepted rt (g !! i)" and "accepted rt (g !! n)"
    by (simp_all add: accepted_def py_random_def)
  then have "rand_no_exp rt g = Some (g !! n mod 2 ^ 53, sdrop (Suc n) g)"
    by (rule rand_no_exp_first)
  then show "rand_no_exp rt g = Some (py_random (sdrop n g))" by (simp add: py_random_def)
  show "fst (py_random (sdrop n g)) < 2 ^ 53" by (simp add: py_random_def)
next
  fix r g2 assume "rand_no_exp rt g = Some (r, g2)"
  from rand_no_exp_sound [OF this] obtain n where
    n: "\<forall>i<n. \<not> accepted rt (g !! i)" "accepted rt (g !! n)"
      "(r, g2) = (g !! n mod 2 ^ 53, sdrop (Suc n) g)" by blast
  have "\<forall>i<n. has_e (str_float rt (fst (py_random (sdrop i g))))"
    using n(1) by (simp add: accepted_def py_random_def)
  moreover have "py_random (sdrop n g) = (r, g2)" using n(3) by (simp add: py_random_def)
  moreover have "r < 2 ^ 53" using n(3) by simp
  moreover have "\<not> has_e (str_float rt r)" using n(2,3) by (simp add: accepted_def)
  ultimately show "\<exists>n. (\<forall>i<n. has_e (str_float rt (fst (py_random (sdrop i g))))) \<and>
           py_random (sdrop n g) = (r, g2) \<and> r < 2 ^ 53 \<and> \<not> has_e (str_float rt r)"
    by blast
next
  assume f: "fair rt g"
  from rand_no_exp_fair [OF f] obtain n where
    "rand_no_exp rt g = Some (g !! n mod 2 ^ 53, sdrop (Suc n) g)" "accepted rt (g !! n)" by blast
  then show "\<exists>r g2. rand_no_exp rt g = Some (r, g2) \<and> \<not> has_e (str_float rt r)"
    by (auto simp: accepted_def)
  from rand_val_fair [OF f] obtain v k where v: "rand_val rt g = Some (Inr (v, sdrop k g))"
    by blast
  then have "leaf_ok rt v" by (rule rand_val_sound)
  with v show "\<exists>v g'. rand_val rt g = Some (Inr (v, g')) \<and> leaf_ok rt v" by blast
next
  fix v g' assume "rand_val rt g = Some (Inr (v, g'))"
  then show "leaf_ok rt v" by (rule rand_val_sound)
next
  fix calls max_rec e g' assume "rand_expr rt calls max_rec g = Some (Inr (e, g'))"
  then show "list_all (leaf_ok rt) (leaves e)" using rand_expr_sound by blast
qed

theorem rand_val_policy_witness:
  "rand_no_exp sample_rt (2 ## 2 ## 0 ## sconst 0) = Some (0, sconst 0) \<and>
   rand_val sample_rt (1 ## 7 ## sconst 0) = Some (Inr (PyInt (- 993), sconst 0)) \<and>
   list_all (leaf_ok sample_rt)
     (leaves (Lst ''mult'' [Lst ''neg'' [Num (PyInt (- 993))], Num (PyFloat 0)]))"
proof -
  note redraw = rand_val_policy [of "2 ## 2 ## 0 ## sconst 0" sample_rt,
      THEN conjunct2, THEN conjunct2, THEN conjunct1, rule_format, of "Suc (Suc 0)"]
  note policy = rand_val_policy [of sample_draws sample_rt]
  note ints = policy [THEN conjunct2, THEN conjunct1, rule_format, of "- 993" "sconst 0"]
  note trees = policy [THEN conjunct2, THEN conjunct2, THEN conjunct2, THEN conjunct2,
      THEN conjunct2, THEN conjunct2, rule_format, OF rand_expr_sample_run]
  have e2: "has_e (str_float sample_rt 2)" and e0: "\<not> has_e (str_float sample_rt 0)"
    using rejected_sample_2 accepted_sample_0 by (simp_all add: accepted_def)
  have "(\<forall>i<Suc (Suc 0). has_e (str_float sample_rt
            (fst (py_random (sdrop i (2 ## 2 ## 0 ## sconst 0)))))) \<and>
        \<not> has_e (str_float sample_rt
            (fst (py_random (sdrop (Suc (Suc 0)) (2 ## 2 ## 0 ## sconst 0)))))"
    using e2 e0 by (simp add: py_random_def less_Suc_eq)
  from redraw [OF this] have "rand_no_exp sample_rt (2 ## 2 ## 0 ## sconst 0) = Some (0, sconst 0)"
    by (simp add: py_random_def)
  moreover from ints
  have "rand_val sample_rt (1 ## 7 ## sconst 0) = Some (Inr (PyInt (- 993), sconst 0))"
    by simp
  ultimately show ?thesis using trees by (intro conjI)
qed

text \<open>
  C8: on every state of the random source, a call of \<^verbatim>\<open>rand_expr(0)\<close> returns a Leaf, a
  value of the value policy. On no stream of draws at all does it return a Unary or
  Binary node or raise an error.
\<close>

theorem rand_expr_0_leaf:
  "(fair rt g \<longrightarrow>
      (\<exists>v g'. rand_expr rt (Suc c) 0 g = Some (Inr (Num v, g')) \<and> leaf_ok rt v)) \<and>
   (\<forall>e g'. rand_expr rt calls 0 g = Some (Inr (e, g')) \<longrightarrow>
      is_leaf e \<and> \<not> is_unary e \<and> \<not> is_binary e) \<and>
   (\<forall>err. rand_expr rt (Suc c) 0 g \<noteq> Some (Inl err))"
proof -
  have "\<exists>v g'. rand_expr rt (Suc c) 0 g = Some (Inr (Num v, g')) \<and> leaf_ok rt v" if "fair rt g"
  proof -
    from rand_val_fair [OF fair_stl [OF that]] obtain v k where
      v: "rand_val rt (stl g) = Some (Inr (v, sdrop k (stl g)))" by blast
    then have "leaf_ok rt v" by (rule rand_val_sound)
    moreover from v have "rand_expr rt (Suc c) 0 g = Some (Inr (Num v, sdrop k (stl g)))"
      by (simp add: rand_expr_0_eq)
    ultimately show ?thesis by blast
  qed
  moreover have "is_leaf e \<and> \<not> is_unary e \<and> \<not> is_binary e"
    if ret: "rand_expr rt calls 0 g = Some (Inr (e, g'))" for e g'
  proof -
    from ret rand_expr_sound have "depth e \<le> nat 0" by blast
    then obtain v where "e = Num v" by (cases e) simp_all
    then show ?thesis by (simp add: is_leaf_def is_unary_def is_binary_def)
  qed
  moreover have "rand_expr rt (Suc c) 0 g \<noteq> Some (Inl err)" for err
    using rand_val_no_error [of rt "stl g"]
    by (auto simp: rand_expr_0_eq split: option.splits sum.splits)
  ultimately show ?thesis by blast
qed

theorem rand_expr_0_leaf_witness:
  "fair sample_rt (5 ## 0 ## 2 ## sconst 0) \<and>
   rand_expr sample_rt (call_limit sample_rt) 0 (5 ## 0 ## 2 ## sconst 0) =
     Some (Inr (Num (PyFloat 0), sconst 0)) \<and>
   is_leaf (Num (PyFloat 0))"
proof -
  have f: "fair sample_rt (5 ## 0 ## 2 ## sconst 0)"
    by (intro fair_SCons fair_sconst accepted_sample_0)
  have run: "rand_expr sample_rt (call_limit sample_rt) 0 (5 ## 0 ## 2 ## sconst 0) =
      Some (Inr (Num (PyFloat 0), sconst 0))"
    using accepted_sample_0 rejected_sample_2 rand_expr_0_eq [of sample_rt 994]
    by (simp add: sample_rt_def rand_val_eq rand_no_exp_accept rand_no_exp_reject)
  from rand_expr_0_leaf [of sample_rt "5 ## 0 ## 2 ## sconst 0" 994] f run
  show ?thesis by (simp add: is_leaf_def)
qed



text \<open>
  C10: for every negative \<open>max_rec\<close> the draw over the empty range \<open>[0, max_rec]\<close> raises
  \<^verbatim>\<open>ValueError\<close>, so \<^verbatim>\<open>rand_expr\<close> raises instead of returning; the draw comes before the
  test \<^verbatim>\<open>max_rec <= 0\<close>, so whenever the draw has returned and \<open>max_rec \<le> 0\<close> holds,
  \<open>max_rec\<close> is 0 (and so is the number drawn), and a call that returns a value had
  \<open>max_rec \<ge> 0\<close>.
\<close>

theorem rand_expr_negative_raises:
  "(max_rec < 0 \<longrightarrow>
      py_randint 0 max_rec g = Inl ValueError \<and>
      rand_expr rt (Suc c) max_rec g = Some (Inl ValueError) \<and>
      (\<exists>err. rand_expr rt calls max_rec g = Some (Inl err))) \<and>
   (\<forall>r g1. py_randint 0 max_rec g = Inr (r, g1) \<and> max_rec \<le> 0 \<longrightarrow> max_rec = 0 \<and> r = 0) \<and>
   (\<forall>e g'. rand_expr rt calls max_rec g = Some (Inr (e, g')) \<longrightarrow> 0 \<le> max_rec)"
proof -
  have neg: "rand_expr rt (Suc c) max_rec g = Some (Inl ValueError)" if "max_rec < 0"
    using that by (rule rand_expr_neg)
  have err: "\<exists>err. rand_expr rt calls max_rec g = Some (Inl err)" if "max_rec < 0"
    using that by (cases calls) (simp_all add: rand_expr_neg rand_expr_no_calls)
  have draw: "max_rec = 0 \<and> r = 0" if h: "py_randint 0 max_rec g = Inr (r, g1) \<and> max_rec \<le> 0"
    for r g1
  proof -
    from h have "0 \<le> r" "r \<le> max_rec" using py_randint_in_range by blast+
    with h show ?thesis by simp
  qed
  have ret: "0 \<le> max_rec" if "rand_expr rt calls max_rec g = Some (Inr (e, g'))" for e g'
  proof (rule ccontr)
    assume "\<not> 0 \<le> max_rec"
    then have "max_rec < 0" by simp
    from err [OF this] that show False by simp
  qed
  from neg err draw ret py_randint_empty [of max_rec 0 g] show ?thesis by blast
qed

theorem rand_expr_negative_raises_witness:
  "rand_expr sample_rt (call_limit sample_rt) (- 3) (sconst 0) = Some (Inl ValueError) \<and>
   py_randint 0 (- 3) (sconst 0) = Inl ValueError \<and>
   py_randint 0 0 (sconst 5) = Inr (0, sconst 5)"
  using rand_expr_negative_raises [of "- 3" "sconst 0" sample_rt 994 0]
  by (simp add: py_randint_def sample_rt_def)

subsection \<open>The printer and the script\<close>

text \<open>
  C4: a Leaf is printed as its value after the spacing (\<open>indent\<close> spaces when \<open>newline\<close> is
  true, one space when it is false) and before a line end; a Binary node as its operator
  after the same spacing and before a line end, followed by its two children in order,
  each printed at \<open>indent + 1\<close> with \<open>newline\<close> true. The node \<^verbatim>\<open>["add", 3, 4]\<close> at indent 0
  prints as the three lines \<^verbatim>\<open>add\<close>, \<^verbatim>\<open> 3\<close>, \<^verbatim>\<open> 4\<close>.
\<close>

theorem print_expr_leaf_binary:
  "spacing indent newline = (if newline then replicate (nat indent) CHR '' '' else '' '') \<and>
   print_expr rt (Num v) indent newline = spacing indent newline @ str_num rt v @ eol \<and>
   print_expr rt (Lst tag [a, b]) indent newline =
     spacing indent newline @ tag @ eol @
     print_expr rt a (indent + 1) True @ print_expr rt b (indent + 1) True \<and>
   print_expr rt (Lst ''add'' [Num (PyInt 3), Num (PyInt 4)]) 0 True =
     ''add'' @ eol @ '' 3'' @ eol @ '' 4'' @ eol"
  by (simp add: spacing_def str_int_3 str_int_4)

theorem print_expr_leaf_binary_witness:
  "print_expr sample_rt (Lst ''mult'' [Num (PyInt (- 993)), Num (PyFloat 0)]) 2 False =
     '' mult'' @ eol @ ''   -993'' @ eol @ ''   0.0'' @ eol"
  using print_expr_leaf_binary [of 2 False sample_rt "PyInt (- 993)" "''mult''"
      "Num (PyInt (- 993))" "Num (PyFloat 0)"]
    print_expr_leaf_binary [of 3 True sample_rt "PyInt (- 993)"]
    print_expr_leaf_binary [of 3 True sample_rt "PyFloat 0"]
  by (simp add: spacing_def str_int_m993 sample_rt_def exact_str_float_0 eval_nat_numeral)

text \<open>
  C5: a Unary node is printed as its operator after the spacing, with no line end, followed
  on the same line by its child printed at \<open>indent + 1\<close> with \<open>newline\<close> false (so after one
  space). The node \<^verbatim>\<open>["neg", 5]\<close> at indent 0 prints as the single line \<^verbatim>\<open>neg 5\<close>.
\<close>

theorem print_expr_unary:
  "print_expr rt (Lst tag [c]) indent newline =
     spacing indent newline @ tag @ print_expr rt c (indent + 1) False \<and>
   print_expr rt (Lst ''neg'' [Num (PyInt 5)]) 0 True = ''neg 5'' @ eol"
  by (simp add: spacing_def str_int_5)

theorem print_expr_unary_witness:
  "print_expr sample_rt (Lst ''neg'' [Lst ''neg'' [Num (PyInt 5)]]) 3 True =
     ''   neg neg 5'' @ eol"
  using print_expr_unary [of sample_rt "''neg''" "Lst ''neg'' [Num (PyInt 5)]" 3 True]
    print_expr_unary [of sample_rt "''neg''" "Num (PyInt 5)" 4 False]
  by (simp add: spacing_def str_int_5 eval_nat_numeral)

text \<open>
  C6: for an expression tree (numbers, unary \<^verbatim>\<open>neg\<close> nodes and binary add, sub and mult
  nodes) whose numbers are each rendered on one line, as the integers always are, the
  printed text has as many lines as the tree has Leaf and Binary nodes: a Unary node
  starts no line of its own.
\<close>

theorem print_expr_line_count:
  "gen_shape e \<Longrightarrow> list_all (one_line rt) (leaves e) \<Longrightarrow>
   count_lines (print_expr rt e indent newline) = count_leaf e + count_binary e"
proof (induction e arbitrary: indent newline)
  case (Num v)
  then show ?case by (simp add: count_lines_one_line)
next
  case (Lst tag cs)
  from gen_shape_cases [OF Lst.prems(1)] consider
    c where "tag = ''neg''" "cs = [c]"
    | a b where "cs = [a, b]" "tag \<in> set [''add'', ''sub'', ''mult'']"
    by auto
  then show ?case
  proof cases
    case 1
    with Lst.prems have "gen_shape c" "list_all (one_line rt) (leaves c)" by simp_all
    with Lst.IH [of c] 1 show ?thesis
      by (simp add: is_binary_def)
  next
    case 2
    with Lst.prems have "gen_shape a" "list_all (one_line rt) (leaves a)"
      "gen_shape b" "list_all (one_line rt) (leaves b)" by simp_all
    with Lst.IH [of a] Lst.IH [of b] 2 have
      "count_lines (print_expr rt a (indent + 1) True) = count_leaf a + count_binary a"
      "count_lines (print_expr rt b (indent + 1) True) = count_leaf b + count_binary b"
      by simp_all
    moreover have "count_lines tag = 0" using 2(2) by auto
    ultimately show ?thesis using 2 by (simp add: is_binary_def)
  qed
qed

theorem print_expr_line_count_witness:
  "count_lines (print_expr sample_rt
      (Lst ''mult'' [Lst ''neg'' [Num (PyInt (- 993))], Num (PyFloat 0)]) 0 True) = 3 \<and>
   count_leaf (Lst ''mult'' [Lst ''neg'' [Num (PyInt (- 993))], Num (PyFloat 0)]) = 2 \<and>
   count_binary (Lst ''mult'' [Lst ''neg'' [Num (PyInt (- 993))], Num (PyFloat 0)]) = 1"
  using print_expr_line_count [of "Lst ''mult'' [Lst ''neg'' [Num (PyInt (- 993))], Num (PyFloat 0)]"
      sample_rt 0 True]
  by (simp add: is_unary_def is_binary_def one_line_def str_int_m993 sample_rt_def
      exact_str_float_0)

text \<open>
  C7: once the argument has been read as an integer, the script writes the line
  \<^verbatim>\<open>print\<close> first; when the generator returns a tree, what follows is that tree printed at
  indent 0 with \<open>newline\<close> true, and nothing else is written.
\<close>

theorem script_output:
  "1 < length argv \<Longrightarrow> int_of_str rt (argv ! 1) = Some max_rec \<Longrightarrow>
   take 6 (fst (script rt argv g)) = ''print'' @ eol \<and>
   (\<forall>expr g'. rand_expr rt (call_limit rt) max_rec g = Some (Inr (expr, g')) \<longrightarrow>
      script rt argv g = (''print'' @ eol @ print_expr rt expr 0 True, Finished)) \<and>
   (\<forall>err. rand_expr rt (call_limit rt) max_rec g = Some (Inl err) \<longrightarrow>
      script rt argv g = (''print'' @ eol, Raised err)) \<and>
   (rand_expr rt (call_limit rt) max_rec g = None \<longrightarrow> script rt argv g = (''print'' @ eol, Hangs))"
  by (auto simp: script_def split: option.splits sum.splits)

theorem script_output_witness:
  "script sample_rt [''gen_expr.py'', ''2''] sample_draws =
     (''print'' @ eol @ ''mult'' @ eol @ '' neg -993'' @ eol @ '' 0.0'' @ eol, Finished)"
proof -
  have arg: "int_of_str sample_rt ''2'' = Some 2"
    by (simp add: sample_rt_def dec_int_of_str_def)
  have out: "print_expr sample_rt
      (Lst ''mult'' [Lst ''neg'' [Num (PyInt (- 993))], Num (PyFloat 0)]) 0 True =
      ''mult'' @ eol @ '' neg -993'' @ eol @ '' 0.0'' @ eol"
    by (simp add: sample_rt_def spacing_def str_int_m993 exact_str_float_0)
  from script_output [of "[''gen_expr.py'', ''2'']" sample_rt 2 sample_draws] arg
    rand_expr_sample_run out
  show ?thesis by simp
qed

end
